theory Spec2Isabelle
  imports Main "HOL-Library.Multiset"
begin

section \<open>The task board of \<^verbatim>\<open>src/app/page.tsx\<close>\<close>

subsection \<open>Data model\<close>

text \<open>
  \<^verbatim>\<open>type Task = { id: string, title: string, description: string,
                priority: 'low' | 'medium' | 'high',
                status: 'todo' | 'done' | 'failed' | 'in-progress',
                timestamp?: string }\<close>
  The two unions of string literals are enumerations. The field \<^verbatim>\<open>id\<close> is called
  \<open>task_id\<close> here, since \<open>id\<close> is the identity function of HOL.
\<close>

datatype priority = Low | Medium | High

datatype status = Todo | Done | Failed | InProgress

record Task =
  task_id :: string
  title :: string
  description :: string
  priority :: priority
  status :: status
  timestamp :: "string option"

text \<open>The string that a status is at run time, which is also the id of its column.\<close>

fun statusId :: "status \<Rightarrow> string" where
  "statusId Todo = ''todo''"
| "statusId Done = ''done''"
| "statusId Failed = ''failed''"
| "statusId InProgress = ''in-progress''"

text \<open>
  The cast \<^verbatim>\<open>overContainer as 'todo' | 'done' | 'failed' | 'in-progress'\<close>: a string read as
  a member of the union, when it is one.
\<close>

definition asStatus :: "string \<Rightarrow> status option" where
  "asStatus i =
     (if i = ''todo'' then Some Todo
      else if i = ''done'' then Some Done
      else if i = ''failed'' then Some Failed
      else if i = ''in-progress'' then Some InProgress
      else None)"

text \<open>
  The component state: \<^verbatim>\<open>useState<Task[]>\<close> and \<^verbatim>\<open>useState<string | null>\<close>. The handlers
  run one after the other, each on the state the previous one left, so the \<^verbatim>\<open>tasks\<close> a
  handler closes over and the \<^verbatim>\<open>tasks\<close> its updater receives are the same list.
\<close>

record State =
  tasks :: "Task list"
  activeId :: "string option"

subsection \<open>Array primitives\<close>

text \<open>\<^verbatim>\<open>Array.prototype.findIndex\<close>: the first index whose element passes, or \<open>-1\<close>.\<close>

fun findIndex :: "('a \<Rightarrow> bool) \<Rightarrow> 'a list \<Rightarrow> int" where
  "findIndex P [] = - 1"
| "findIndex P (x # xs) =
     (if P x then 0
      else (let r = findIndex P xs in if r < 0 then - 1 else r + 1))"

text \<open>
  The start position of \<^verbatim>\<open>Array.prototype.splice\<close>: a negative start counts from the end,
  and the result is clamped to \<open>0 .. length\<close>.
\<close>

definition spliceStart :: "'a list \<Rightarrow> int \<Rightarrow> nat" where
  "spliceStart xs start =
     (let n = int (length xs)
      in if start < 0 then nat (max (n + start) 0) else nat (min start n))"

text \<open>
  Modelled from the spec: \<^verbatim>\<open>arrayMove\<close> is imported from the package @dnd-kit/sortable and
  is not part of the repository's sources. The spec (section 4.2) describes it as a stable
  array move, "remove the active item and reinsert it at the target's position, preserving
  relative order of all other items", "removing then inserting, not swapping". The
  package's function is
  \<^verbatim>\<open>const newArray = array.slice();
  newArray.splice(to < 0 ? newArray.length + to : to, 0, newArray.splice(from, 1)[0]);
  return newArray;\<close>
  where the insertion position is computed before the removal (arguments are evaluated from
  left to right), so a negative \<open>to\<close> counts from the end of the array at its full length.
  When \<open>from\<close> selects no element the package inserts \<^verbatim>\<open>undefined\<close>, which is no value
  of the element type: the model returns the array as it is there, and
  \<open>reorder_removes_element\<close> below shows that the handler never reaches that branch.
\<close>

definition arrayMove :: "'a list \<Rightarrow> int \<Rightarrow> int \<Rightarrow> 'a list" where
  "arrayMove array from to =
     (let start = (if to < 0 then int (length array) + to else to);
          k = spliceStart array from
      in if k < length array
         then (let removed = array ! k;
                   newArray = take k array @ drop (Suc k) array;
                   p = spliceStart newArray start
               in take p newArray @ [removed] @ drop p newArray)
         else array)"

subsection \<open>Container resolution\<close>

text \<open>
  \<^verbatim>\<open>const findContainer = (id: string) => {
    const task = tasks.find(task => task.id === id);
    return task ? task.status : null; }\<close>
\<close>

definition findContainer :: "Task list \<Rightarrow> string \<Rightarrow> status option" where
  "findContainer ts i =
     (case find (\<lambda>task. task_id task = i) ts of
        Some task \<Rightarrow> Some (status task)
      | None \<Rightarrow> None)"

text \<open>
  The expression both handlers bind to \<^verbatim>\<open>overContainer\<close>:
  \<^verbatim>\<open>over.id === 'todo' || over.id === 'done' || over.id === 'failed' || over.id === 'in-progress'
    ? over.id.toString() : findContainer(overId)\<close>
\<close>

definition overContainer :: "Task list \<Rightarrow> string \<Rightarrow> status option" where
  "overContainer ts overId =
     (if overId = ''todo'' \<or> overId = ''done'' \<or> overId = ''failed'' \<or> overId = ''in-progress''
      then asStatus overId
      else findContainer ts overId)"

subsection \<open>The two moves\<close>

text \<open>
  The updater of both handlers for a move to another column:
  \<^verbatim>\<open>const updatedTasks = [...tasks];
  const taskToMove = updatedTasks.find(task => task.id === activeId);
  if (taskToMove) { taskToMove.status = overContainer }
  return updatedTasks;\<close>
  The copy is shallow and the first task with the id is written in place; the list returned
  has the same tasks at the same positions, the first match with its new status.
\<close>

fun moveAcross :: "Task list \<Rightarrow> string \<Rightarrow> status \<Rightarrow> Task list" where
  "moveAcross [] a c = []"
| "moveAcross (t # ts) a c =
     (if task_id t = a then t\<lparr>status := c\<rparr> # ts else t # moveAcross ts a c)"

text \<open>
  The branch of \<^verbatim>\<open>handleDragEnd\<close> for a move within one column:
  \<^verbatim>\<open>const activeIndex = tasks.findIndex(task => task.id === activeId);
  const overIndex = tasks.findIndex(task => task.id === overId);
  if (activeIndex !== overIndex) { setTasks(tasks => arrayMove(tasks, activeIndex, overIndex)); }\<close>
\<close>

definition reorder :: "Task list \<Rightarrow> string \<Rightarrow> string \<Rightarrow> Task list" where
  "reorder ts a overId =
     (let activeIndex = findIndex (\<lambda>task. task_id task = a) ts;
          overIndex = findIndex (\<lambda>task. task_id task = overId) ts
      in if activeIndex \<noteq> overIndex then arrayMove ts activeIndex overIndex else ts)"

subsection \<open>The handlers\<close>

definition handleDragStart :: "State \<Rightarrow> string \<Rightarrow> State" where
  "handleDragStart s a = s\<lparr>activeId := Some a\<rparr>"

definition handleDragOver :: "State \<Rightarrow> string \<Rightarrow> string option \<Rightarrow> State" where
  "handleDragOver s a over =
     (case over of
        None \<Rightarrow> s
      | Some overId \<Rightarrow>
          (case findContainer (tasks s) a of
             None \<Rightarrow> s
           | Some activeContainer \<Rightarrow>
               (case overContainer (tasks s) overId of
                  None \<Rightarrow> s
                | Some oc \<Rightarrow>
                    if activeContainer = oc then s
                    else s\<lparr>tasks := moveAcross (tasks s) a oc\<rparr>)))"

definition handleDragEnd :: "State \<Rightarrow> string \<Rightarrow> string option \<Rightarrow> State" where
  "handleDragEnd s a over =
     (case over of
        None \<Rightarrow> s\<lparr>activeId := None\<rparr>
      | Some overId \<Rightarrow>
          (case findContainer (tasks s) a of
             None \<Rightarrow> s\<lparr>activeId := None\<rparr>
           | Some activeContainer \<Rightarrow>
               (case overContainer (tasks s) overId of
                  None \<Rightarrow> s\<lparr>activeId := None\<rparr>
                | Some oc \<Rightarrow>
                    if activeContainer \<noteq> oc
                    then s\<lparr>tasks := moveAcross (tasks s) a oc, activeId := None\<rparr>
                    else s\<lparr>tasks := reorder (tasks s) a overId, activeId := None\<rparr>)))"

text \<open>\<^verbatim>\<open>setTasks(tasks.filter(task => task.id !== id))\<close>\<close>

definition handleDelete :: "State \<Rightarrow> string \<Rightarrow> State" where
  "handleDelete s i = s\<lparr>tasks := filter (\<lambda>task. task_id task \<noteq> i) (tasks s)\<rparr>"

subsection \<open>Events\<close>

text \<open>
  What \<^verbatim>\<open>DndContext\<close> delivers to \<^verbatim>\<open>onDragStart\<close>, \<^verbatim>\<open>onDragOver\<close> and \<^verbatim>\<open>onDragEnd\<close>: the id of
  the active item and, for the last two, the id of the droppable under it or \<^verbatim>\<open>null\<close>.
\<close>

datatype event =
  DragStart string
| DragOver string "string option"
| DragEnd string "string option"

fun step :: "State \<Rightarrow> event \<Rightarrow> State" where
  "step s (DragStart a) = handleDragStart s a"
| "step s (DragOver a over) = handleDragOver s a over"
| "step s (DragEnd a over) = handleDragEnd s a over"

definition run :: "State \<Rightarrow> event list \<Rightarrow> State" where
  "run s evs = foldl step s evs"

text \<open>The tasks of the scenarios: only id and status matter to the handlers.\<close>

definition mk :: "string \<Rightarrow> status \<Rightarrow> Task" where
  "mk i c = \<lparr>task_id = i, title = i, description = [], priority = Medium,
             status = c, timestamp = None\<rparr>"

definition scenarioA :: State where
  "scenarioA = \<lparr>tasks = [mk ''T1'' Todo, mk ''T2'' Todo, mk ''T3'' Done], activeId = None\<rparr>"

definition scenarioB :: State where
  "scenarioB = \<lparr>tasks = [mk ''T1'' Todo, mk ''T2'' Todo, mk ''T3'' Todo], activeId = None\<rparr>"

subsection \<open>The reorder of the specification\<close>

text \<open>
  Section 4.2 of the specification in its own words, to compare the handler with: the
  result \<open>ts'\<close> is \<open>ts\<close> with the item of id \<open>a\<close> removed from its index and
  reinserted at the index the item of id \<open>t\<close> has in the full sequence \<open>ts\<close>.
\<close>

definition reorderedAtTarget :: "Task list \<Rightarrow> string \<Rightarrow> string \<Rightarrow> Task list \<Rightarrow> bool" where
  "reorderedAtTarget ts a t ts' =
     list_ex (\<lambda>i. list_ex (\<lambda>j.
         task_id (ts ! i) = a \<and> task_id (ts ! j) = t \<and>
         ts' = take j (take i ts @ drop (Suc i) ts) @ [ts ! i] @ drop j (take i ts @ drop (Suc i) ts))
       [0..<length ts]) [0..<length ts]"

section \<open>Lemmas\<close>

subsection \<open>Indices and lookups\<close>

lemma findIndex_range: "- 1 \<le> findIndex P xs \<and> findIndex P xs < int (length xs)"
  by (induction xs) (auto simp: Let_def)

lemma findIndex_neg_iff: "findIndex P xs < 0 \<longleftrightarrow> (\<forall>x\<in>set xs. \<not> P x)"
  by (induction xs) (auto simp: Let_def)

lemma nat_findIndex_Suc: "0 \<le> r \<Longrightarrow> nat (r + 1) = Suc (nat r)"
  by simp

lemma findIndex_nth: "0 \<le> findIndex P xs \<Longrightarrow> P (xs ! nat (findIndex P xs))"
  by (induction xs) (auto simp: Let_def nat_findIndex_Suc split: if_splits)

lemma findIndex_first: "0 \<le> findIndex P xs \<Longrightarrow> k < nat (findIndex P xs) \<Longrightarrow> \<not> P (xs ! k)"
proof (induction xs arbitrary: k)
  case Nil
  then show ?case by simp
next
  case (Cons x xs)
  show ?case
  proof (cases "P x")
    case True
    with Cons.prems show ?thesis by simp
  next
    case False
    with Cons.prems have r: "0 \<le> findIndex P xs"
      by (simp add: Let_def split: if_splits)
    with Cons.prems False have k: "k < Suc (nat (findIndex P xs))"
      by (simp add: Let_def nat_findIndex_Suc)
    show ?thesis
    proof (cases k)
      case 0
      with False show ?thesis by simp
    next
      case (Suc j)
      with k have "j < nat (findIndex P xs)" by simp
      with Cons.IH r have "\<not> P (xs ! j)" by blast
      with Suc show ?thesis by simp
    qed
  qed
qed

lemma find_findIndex:
  "find P xs = (if findIndex P xs < 0 then None else Some (xs ! nat (findIndex P xs)))"
  by (induction xs) (auto simp: Let_def nat_findIndex_Suc)

lemma findIndex_found_bounds:
  "findContainer ts a = Some c \<Longrightarrow>
     0 \<le> findIndex (\<lambda>task. task_id task = a) ts \<and>
     nat (findIndex (\<lambda>task. task_id task = a) ts) < length ts"
  using findIndex_range [of "\<lambda>task. task_id task = a" ts]
  by (auto simp: findContainer_def find_findIndex split: if_splits)

lemma findContainer_index:
  "findContainer ts a =
     (if findIndex (\<lambda>task. task_id task = a) ts < 0 then None
      else Some (status (ts ! nat (findIndex (\<lambda>task. task_id task = a) ts))))"
  by (simp add: findContainer_def find_findIndex)

lemma moveAcross_update:
  "moveAcross ts a c =
     (if findIndex (\<lambda>task. task_id task = a) ts < 0 then ts
      else ts[nat (findIndex (\<lambda>task. task_id task = a) ts) :=
                (ts ! nat (findIndex (\<lambda>task. task_id task = a) ts))\<lparr>status := c\<rparr>])"
  by (induction ts) (auto simp: Let_def nat_findIndex_Suc)

lemma map_task_id_moveAcross: "map task_id (moveAcross ts a c) = map task_id ts"
  by (induction ts) auto

lemma length_moveAcross: "length (moveAcross ts a c) = length ts"
  by (induction ts) auto

lemma findIndex_moveAcross:
  "findIndex (\<lambda>task. task_id task = b) (moveAcross ts a c) = findIndex (\<lambda>task. task_id task = b) ts"
  by (induction ts) (auto simp: Let_def)

lemma moveAcross_idem: "moveAcross (moveAcross ts a c) a c = moveAcross ts a c"
  by (induction ts) auto

lemma moveAcross_same: "findContainer ts a = Some c \<Longrightarrow> moveAcross ts a c = ts"
  by (induction ts) (auto simp: findContainer_def)

lemma moveAcross_absent: "findContainer ts a = None \<Longrightarrow> moveAcross ts a c = ts"
  by (induction ts) (auto simp: findContainer_def split: if_splits)

lemma mset_insert_at: "mset (take p ys @ [x] @ drop p ys) = add_mset x (mset ys)"
proof -
  have "mset (take p ys @ [x] @ drop p ys) = add_mset x (mset (take p ys @ drop p ys))"
    by (simp only: mset_append mset.simps) simp
  then show ?thesis by simp
qed

lemma mset_remove_at: "k < length xs \<Longrightarrow> add_mset (xs ! k) (mset (take k xs @ drop (Suc k) xs)) = mset xs"
proof -
  assume "k < length xs"
  then have "xs = take k xs @ xs ! k # drop (Suc k) xs"
    by (rule id_take_nth_drop)
  then have "mset xs = mset (take k xs @ xs ! k # drop (Suc k) xs)"
    by simp
  then show ?thesis by (simp only: mset_append mset.simps) simp
qed

lemma mset_arrayMove:
  "spliceStart xs from < length xs \<Longrightarrow> mset (arrayMove xs from to) = mset xs"
  unfolding arrayMove_def Let_def
  by (simp only: if_True mset_insert_at mset_remove_at)

text \<open>
  The two indices of \<open>reorder\<close> come from \<open>findIndex\<close> on the same list, so when they
  differ the list is not empty and the first one selects an element: \<open>arrayMove\<close> always
  has an element to remove.
\<close>

lemma reorder_removes_element:
  assumes "findIndex P xs \<noteq> findIndex Q xs"
  shows "spliceStart xs (findIndex P xs) < length xs"
proof -
  have ne: "xs \<noteq> []"
    using assms by (cases xs) simp_all
  have lo: "- 1 \<le> findIndex P xs" and hi: "findIndex P xs < int (length xs)"
    using findIndex_range [of P xs] by simp_all
  show ?thesis
  proof (cases "findIndex P xs < 0")
    case True
    with lo have "findIndex P xs = - 1"
      by simp
    with ne show ?thesis
      by (cases xs) (simp_all add: spliceStart_def Let_def)
  next
    case False
    with hi show ?thesis
      by (simp add: spliceStart_def Let_def)
  qed
qed

lemma spliceStart_index: "i \<le> length xs \<Longrightarrow> spliceStart xs (int i) = i"
  by (simp add: spliceStart_def Let_def min_def)

lemma length_remove_at: "i < length xs \<Longrightarrow> length (take i xs @ drop (Suc i) xs) = length xs - 1"
  by simp

lemma arrayMove_in_range:
  assumes "i < length xs" "j < length xs"
  shows "arrayMove xs (int i) (int j) =
           take j (take i xs @ drop (Suc i) xs) @ [xs ! i] @ drop j (take i xs @ drop (Suc i) xs)"
proof -
  have k: "spliceStart xs (int i) = i"
    using assms(1) by (simp add: spliceStart_index)
  have "j \<le> length (take i xs @ drop (Suc i) xs)"
    using assms by (simp add: length_remove_at)
  then have p: "spliceStart (take i xs @ drop (Suc i) xs) (int j) = j"
    by (rule spliceStart_index)
  have to: "(if int j < 0 then int (length xs) + int j else int j) = int j"
    by simp
  show ?thesis
    unfolding arrayMove_def Let_def to k p using assms(1) by (simp only: if_True)
qed

lemma arrayMove_to_end:
  assumes "i < length xs"
  shows "arrayMove xs (int i) (- 1) = take i xs @ drop (Suc i) xs @ [xs ! i]"
proof -
  let ?rest = "take i xs @ drop (Suc i) xs"
  have k: "spliceStart xs (int i) = i"
    using assms by (simp add: spliceStart_index)
  have to: "(if (- 1 :: int) < 0 then int (length xs) + - 1 else - 1) = int (length ?rest)"
    using assms by (simp add: length_remove_at)
  have p: "spliceStart ?rest (int (length ?rest)) = length ?rest"
    by (rule spliceStart_index) simp
  have "arrayMove xs (int i) (- 1) = take (length ?rest) ?rest @ [xs ! i] @ drop (length ?rest) ?rest"
    unfolding arrayMove_def Let_def to k p using assms by (simp only: if_True)
  also have "\<dots> = ?rest @ [xs ! i]"
    by (simp only: take_all [OF order_refl] drop_all [OF order_refl] append_Nil2)
  finally show ?thesis by simp
qed

subsection \<open>Conservation lemmas\<close>

lemma ids_moveAcross: "mset (map task_id (moveAcross ts a c)) = mset (map task_id ts)"
  by (simp only: map_task_id_moveAcross)

lemma ids_reorder: "mset (map task_id (reorder ts a t)) = mset (map task_id ts)"
proof -
  have "mset (reorder ts a t) = mset ts"
    by (simp add: reorder_def Let_def mset_arrayMove reorder_removes_element)
  then have "image_mset task_id (mset (reorder ts a t)) = image_mset task_id (mset ts)"
    by simp
  then show ?thesis by (simp only: mset_map)
qed

lemma ids_handleDragOver:
  "mset (map task_id (tasks (handleDragOver s a over))) = mset (map task_id (tasks s))"
  by (simp add: handleDragOver_def ids_moveAcross del: mset_map split: option.splits)

lemma ids_handleDragEnd:
  "mset (map task_id (tasks (handleDragEnd s a over))) = mset (map task_id (tasks s))"
  by (simp add: handleDragEnd_def ids_moveAcross ids_reorder del: mset_map split: option.splits)

lemma ids_step: "mset (map task_id (tasks (step s ev))) = mset (map task_id (tasks s))"
  by (cases ev) (simp_all add: handleDragStart_def ids_handleDragOver ids_handleDragEnd del: mset_map)

lemma reinsert_same:
  "i < length xs \<Longrightarrow>
     take i (take i xs @ drop (Suc i) xs) @ [xs ! i] @ drop i (take i xs @ drop (Suc i) xs) = xs"
  by (simp add: min_absorb2 Cons_nth_drop_Suc)

lemma mset_reorder: "mset (reorder ts a t) = mset ts"
  by (simp add: reorder_def Let_def mset_arrayMove reorder_removes_element)

lemma set_reorder: "set (reorder ts a t) = set ts"
  using mset_reorder [of ts a t] by (rule mset_eq_setD)

lemma erase_moveAcross:
  "map (\<lambda>t. t\<lparr>status := c\<rparr>) (moveAcross ts a c') = map (\<lambda>t. t\<lparr>status := c\<rparr>) ts"
  by (induction ts) auto

lemma erase_reorder:
  "mset (map (\<lambda>t. t\<lparr>status := c\<rparr>) (reorder ts a t')) = mset (map (\<lambda>t. t\<lparr>status := c\<rparr>) ts)"
proof -
  have "image_mset (\<lambda>t. t\<lparr>status := c\<rparr>) (mset (reorder ts a t')) =
        image_mset (\<lambda>t. t\<lparr>status := c\<rparr>) (mset ts)"
    by (simp only: mset_reorder)
  then show ?thesis by (simp only: mset_map)
qed

lemma step_rewrites_or_permutes:
  "map (\<lambda>t. t\<lparr>status := c\<rparr>) (tasks (step s ev)) = map (\<lambda>t. t\<lparr>status := c\<rparr>) (tasks s) \<or>
   mset (tasks (step s ev)) = mset (tasks s)"
proof (cases ev)
  case (DragStart a)
  then show ?thesis by (simp add: handleDragStart_def)
next
  case (DragOver a over)
  have "map (\<lambda>t. t\<lparr>status := c\<rparr>) (tasks (handleDragOver s a over)) = map (\<lambda>t. t\<lparr>status := c\<rparr>) (tasks s)"
    by (simp add: handleDragOver_def erase_moveAcross split: option.splits)
  with DragOver show ?thesis by simp
next
  case (DragEnd a over)
  show ?thesis
  proof (cases "\<exists>overId c1. over = Some overId \<and> findContainer (tasks s) a = Some c1 \<and>
                  overContainer (tasks s) overId = Some c1")
    case True
    then obtain overId c1 where "over = Some overId" "findContainer (tasks s) a = Some c1"
      "overContainer (tasks s) overId = Some c1" by blast
    then have "tasks (handleDragEnd s a over) = reorder (tasks s) a overId"
      by (simp add: handleDragEnd_def)
    with DragEnd show ?thesis by (simp add: mset_reorder)
  next
    case False
    then have "map (\<lambda>t. t\<lparr>status := c\<rparr>) (tasks (handleDragEnd s a over)) = map (\<lambda>t. t\<lparr>status := c\<rparr>) (tasks s)"
      by (auto simp: handleDragEnd_def erase_moveAcross split: option.splits)
    with DragEnd show ?thesis by simp
  qed
qed

lemma erase_step:
  "mset (map (\<lambda>t. t\<lparr>status := c\<rparr>) (tasks (step s ev))) = mset (map (\<lambda>t. t\<lparr>status := c\<rparr>) (tasks s))"
proof -
  from step_rewrites_or_permutes [of c s ev] show ?thesis
  proof
    assume "map (\<lambda>t. t\<lparr>status := c\<rparr>) (tasks (step s ev)) = map (\<lambda>t. t\<lparr>status := c\<rparr>) (tasks s)"
    then show ?thesis by (simp only:)
  next
    assume "mset (tasks (step s ev)) = mset (tasks s)"
    then have "image_mset (\<lambda>t. t\<lparr>status := c\<rparr>) (mset (tasks (step s ev))) =
               image_mset (\<lambda>t. t\<lparr>status := c\<rparr>) (mset (tasks s))"
      by (simp only:)
    then show ?thesis by (simp only: mset_map)
  qed
qed

lemma erase_run:
  "mset (map (\<lambda>t. t\<lparr>status := c\<rparr>) (tasks (foldl step s evs))) = mset (map (\<lambda>t. t\<lparr>status := c\<rparr>) (tasks s))"
proof (induction evs arbitrary: s)
  case Nil
  show ?case by simp
next
  case (Cons ev evs)
  have "mset (map (\<lambda>t. t\<lparr>status := c\<rparr>) (tasks (foldl step (step s ev) evs))) =
        mset (map (\<lambda>t. t\<lparr>status := c\<rparr>) (tasks (step s ev)))"
    by (rule Cons.IH)
  also have "\<dots> = mset (map (\<lambda>t. t\<lparr>status := c\<rparr>) (tasks s))"
    by (rule erase_step)
  finally show ?case by simp
qed

lemma ids_run: "mset (map task_id (tasks (foldl step s evs))) = mset (map task_id (tasks s))"
proof (induction evs arbitrary: s)
  case Nil
  show ?case by simp
next
  case (Cons ev evs)
  have "mset (map task_id (tasks (foldl step (step s ev) evs))) = mset (map task_id (tasks (step s ev)))"
    by (rule Cons.IH)
  also have "\<dots> = mset (map task_id (tasks s))"
    by (rule ids_step)
  finally show ?case by simp
qed

subsection \<open>Hovering and the final drop\<close>

lemma findIndex_handleDragOver:
  "findIndex (\<lambda>task. task_id task = b) (tasks (handleDragOver s a over)) =
   findIndex (\<lambda>task. task_id task = b) (tasks s)"
  by (simp add: handleDragOver_def findIndex_moveAcross split: option.splits)

lemma findIndex_hovers:
  "findIndex (\<lambda>task. task_id task = b) (tasks (foldl step s (map (DragOver a) overs))) =
   findIndex (\<lambda>task. task_id task = b) (tasks s)"
proof (induction overs arbitrary: s)
  case Nil
  show ?case by simp
next
  case (Cons over overs)
  have "findIndex (\<lambda>task. task_id task = b)
          (tasks (foldl step (handleDragOver s a over) (map (DragOver a) overs))) =
        findIndex (\<lambda>task. task_id task = b) (tasks (handleDragOver s a over))"
    by (rule Cons.IH)
  then show ?case by (simp add: findIndex_handleDragOver)
qed

lemma findContainer_distinct:
  "distinct (map task_id ts) \<Longrightarrow> x \<in> set ts \<Longrightarrow> findContainer ts (task_id x) = Some (status x)"
  by (induction ts) (auto simp: findContainer_def)

lemma findContainer_moveAcross: 
  "findContainer ts a = Some c0 \<Longrightarrow> findContainer (moveAcross ts a c) a = Some c"
  by (induction ts) (auto simp: findContainer_def)

lemma reorder_result:
  assumes "0 \<le> findIndex (\<lambda>task. task_id task = a) ts"
  shows "reorder ts a t =
           (let i = nat (findIndex (\<lambda>task. task_id task = a) ts);
                j = nat (findIndex (\<lambda>task. task_id task = t) ts);
                rest = take i ts @ drop (Suc i) ts
            in if t \<in> task_id ` set ts then take j rest @ [ts ! i] @ drop j rest
               else rest @ [ts ! i])"
proof -
  let ?ai = "findIndex (\<lambda>task. task_id task = a) ts"
  let ?oi = "findIndex (\<lambda>task. task_id task = t) ts"
  let ?i = "nat ?ai" and ?j = "nat ?oi"
  let ?rest = "take ?i ts @ drop (Suc ?i) ts"
  have i: "?i < length ts"
    using findIndex_range [of "\<lambda>task. task_id task = a" ts] assms by simp
  have ai_int: "?ai = int ?i"
    using assms by simp
  show ?thesis
  proof (cases "t \<in> task_id ` set ts")
    case True
    then have "\<not> ?oi < 0"
      by (auto simp: findIndex_neg_iff)
    then have oi: "0 \<le> ?oi" by simp
    then have j: "?j < length ts"
      using findIndex_range [of "\<lambda>task. task_id task = t" ts] by simp
    have oi_int: "?oi = int ?j"
      using oi by simp
    have mv: "arrayMove ts ?ai ?oi = take ?j ?rest @ [ts ! ?i] @ drop ?j ?rest"
      using arrayMove_in_range [OF i j] by (simp only: ai_int [symmetric] oi_int [symmetric])
    have "reorder ts a t = take ?j ?rest @ [ts ! ?i] @ drop ?j ?rest"
    proof (cases "?ai = ?oi")
      case False
      then show ?thesis by (simp only: reorder_def Let_def mv) simp
    next
      case same: True
      then have "?j = ?i" by simp
      moreover have "take ?i ?rest @ [ts ! ?i] @ drop ?i ?rest = ts"
        using i by (rule reinsert_same)
      moreover have "reorder ts a t = ts"
        using same by (simp add: reorder_def)
      ultimately show ?thesis by (simp only:)
    qed
    with True show ?thesis
      unfolding Let_def by (simp only: if_True)
  next
    case False
    then have oi: "?oi = - 1"
      using findIndex_neg_iff [of "\<lambda>task. task_id task = t" ts]
        findIndex_range [of "\<lambda>task. task_id task = t" ts] by auto
    have "arrayMove ts ?ai ?oi = ?rest @ [ts ! ?i]"
      using arrayMove_to_end [OF i] by (simp only: ai_int [symmetric] oi) simp
    moreover have "?ai \<noteq> ?oi"
      using assms oi by simp
    ultimately have "reorder ts a t = ?rest @ [ts ! ?i]"
      by (simp only: reorder_def Let_def) simp
    with False show ?thesis
      unfolding Let_def by (simp only: if_False)
  qed
qed

section \<open>The claims\<close>

subsection \<open>Evaluating the scenarios\<close>

lemmas scenario_defs =
  scenarioA_def scenarioB_def mk_def run_def handleDragStart_def handleDragOver_def
  handleDragEnd_def handleDelete_def findContainer_def overContainer_def asStatus_def
  reorder_def arrayMove_def spliceStart_def Let_def

subsection \<open>Moves to another column\<close>

text \<open>
  C1. A \<^verbatim>\<open>DragOver\<close> whose active item and target resolve to different columns writes the
  target column into the status of the active item (the first task with the active id) and
  changes nothing else: the list is the old one updated at that one index, so every task
  keeps its position and every other task is the same. The session is not touched.
  Scenario A is the witness: from T1(todo), T2(todo), T3(done), dragging T1 over T3 gives
  T1(done), T2(todo), T3(done).
\<close>

theorem dragOver_cross_container:
  assumes "findContainer (tasks s) a = Some ca"
    and "overContainer (tasks s) t = Some ct"
    and "ca \<noteq> ct"
  shows "let i = nat (findIndex (\<lambda>task. task_id task = a) (tasks s));
             s' = handleDragOver s a (Some t)
         in i < length (tasks s) \<and> task_id (tasks s ! i) = a \<and>
            tasks s' = (tasks s)[i := (tasks s ! i)\<lparr>status := ct\<rparr>] \<and>
            status (tasks s' ! i) = ct \<and>
            map task_id (tasks s') = map task_id (tasks s) \<and>
            activeId s' = activeId s"
proof -
  let ?i = "nat (findIndex (\<lambda>task. task_id task = a) (tasks s))"
  have found: "0 \<le> findIndex (\<lambda>task. task_id task = a) (tasks s)" and bound: "?i < length (tasks s)"
    using findIndex_found_bounds [OF assms(1)] by simp_all
  have ida: "task_id (tasks s ! ?i) = a"
    using findIndex_nth [of "\<lambda>task. task_id task = a" "tasks s"] found by simp
  have s': "handleDragOver s a (Some t) = s\<lparr>tasks := moveAcross (tasks s) a ct\<rparr>"
    using assms by (simp add: handleDragOver_def)
  have upd: "moveAcross (tasks s) a ct = (tasks s)[?i := (tasks s ! ?i)\<lparr>status := ct\<rparr>]"
    using found by (simp add: moveAcross_update)
  have st: "status (moveAcross (tasks s) a ct ! ?i) = ct"
    using bound by (simp add: upd)
  have ids: "map task_id (moveAcross (tasks s) a ct) = map task_id (tasks s)"
    by (rule map_task_id_moveAcross)
  have "tasks (s\<lparr>tasks := moveAcross (tasks s) a ct\<rparr>) = moveAcross (tasks s) a ct"
    and "activeId (s\<lparr>tasks := moveAcross (tasks s) a ct\<rparr>) = activeId s"
    by simp_all
  then show ?thesis
    unfolding Let_def s' using bound ida upd st ids by (simp only:)
qed

theorem dragOver_cross_container_witness:
  "findContainer (tasks (handleDragStart scenarioA ''T1'')) ''T1'' = Some Todo \<and>
   overContainer (tasks (handleDragStart scenarioA ''T1'')) ''T3'' = Some Done \<and>
   Todo \<noteq> Done \<and>
   tasks (run scenarioA [DragStart ''T1'', DragOver ''T1'' (Some ''T3'')]) =
     [mk ''T1'' Done, mk ''T2'' Todo, mk ''T3'' Done] \<and>
   activeId (run scenarioA [DragStart ''T1'', DragOver ''T1'' (Some ''T3'')]) = Some ''T1''"
  using dragOver_cross_container [of "handleDragStart scenarioA ''T1''" "''T1''" Todo "''T3''" Done]
  by (simp add: scenario_defs)

text \<open>
  C3 as stated fails. The handler keeps no record of the column the item was in before the
  gesture: \<^verbatim>\<open>handleDragEnd\<close> compares the column the active item is in when the drop
  arrives with the column of the target. In scenario A, after the live update of
  \<^verbatim>\<open>DragOver(T1, T3)\<close> has put T1 into done, \<^verbatim>\<open>DragEnd(T1, T3)\<close> finds both in done, takes
  the branch for a move within one column and moves T1 from index 0 to index 2, although
  the target column (done) differs from the column T1 had before the gesture (todo).
\<close>

theorem dragEnd_after_live_move_counterexample:
  "findContainer (tasks scenarioA) ''T1'' = Some Todo \<and>
   overContainer (tasks (run scenarioA [DragStart ''T1'', DragOver ''T1'' (Some ''T3'')])) ''T3''
     = Some Done \<and>
   tasks (run scenarioA [DragStart ''T1'', DragOver ''T1'' (Some ''T3'')]) =
     [mk ''T1'' Done, mk ''T2'' Todo, mk ''T3'' Done] \<and>
   tasks (run scenarioA [DragStart ''T1'', DragOver ''T1'' (Some ''T3''), DragEnd ''T1'' (Some ''T3'')]) =
     [mk ''T2'' Todo, mk ''T3'' Done, mk ''T1'' Done] \<and>
   tasks (run scenarioA [DragStart ''T1'', DragOver ''T1'' (Some ''T3''), DragEnd ''T1'' (Some ''T3'')]) \<noteq>
     moveAcross (tasks (run scenarioA [DragStart ''T1'', DragOver ''T1'' (Some ''T3'')])) ''T1'' Done \<and>
   findIndex (\<lambda>task. task_id task = ''T1'')
     (tasks (run scenarioA [DragStart ''T1'', DragOver ''T1'' (Some ''T3'')])) = 0 \<and>
   findIndex (\<lambda>task. task_id task = ''T1'')
     (tasks (run scenarioA [DragStart ''T1'', DragOver ''T1'' (Some ''T3''), DragEnd ''T1'' (Some ''T3'')])) = 2"
  by (simp add: scenario_defs)

text \<open>
  C3, amended. For every gesture \<^verbatim>\<open>DragStart(a), DragOver(a, _)*, DragEnd(a, t)\<close> whose
  target column, resolved at the drop, differs from the column the active item had before
  the gesture: after the drop the active item has the status of the target column (with
  unique ids, the active id resolves to the target column) and the session is cleared.
  When the live updates have not put the item into that column yet, the drop applies the
  move to another column and every task keeps its position. When they have, the move to
  another column would change nothing, and the drop takes the branch for a move within one
  column instead: the item is removed and reinserted at the index of the target, or
  appended at the end when the target is the column itself. The witness is the ordinary
  gesture of scenario A, T1 hovering over T3 and dropped on T3, and the same drop after a
  hover over nothing.
\<close>

theorem dragEnd_after_gesture:
  assumes "findContainer (tasks s) a = Some c0"
    and "s1 = run s (DragStart a # map (DragOver a) overs)"
    and "overContainer (tasks s1) t = Some ct"
    and "c0 \<noteq> ct"
  shows "let ts = tasks s1;
             i = nat (findIndex (\<lambda>task. task_id task = a) ts);
             j = nat (findIndex (\<lambda>task. task_id task = t) ts);
             rest = take i ts @ drop (Suc i) ts;
             s' = run s (DragStart a # map (DragOver a) overs @ [DragEnd a (Some t)])
         in s' = handleDragEnd s1 a (Some t) \<and> activeId s' = None \<and>
            i < length ts \<and> task_id (ts ! i) = a \<and>
            (ts ! i)\<lparr>status := ct\<rparr> \<in> set (tasks s') \<and>
            (distinct (map task_id (tasks s)) \<longrightarrow> findContainer (tasks s') a = Some ct) \<and>
            (if findContainer ts a \<noteq> Some ct
             then tasks s' = moveAcross ts a ct \<and>
                  tasks s' = ts[i := (ts ! i)\<lparr>status := ct\<rparr>] \<and>
                  map task_id (tasks s') = map task_id ts
             else moveAcross ts a ct = ts \<and>
                  tasks s' = reorder ts a t \<and>
                  tasks s' = (if t \<in> task_id ` set ts then take j rest @ [ts ! i] @ drop j rest
                              else rest @ [ts ! i]))"
proof -
  let ?ts = "tasks s1"
  let ?ai = "findIndex (\<lambda>task. task_id task = a) ?ts"
  let ?i = "nat ?ai"
  let ?j = "nat (findIndex (\<lambda>task. task_id task = t) ?ts)"
  let ?rest = "take ?i ?ts @ drop (Suc ?i) ?ts"
  let ?s' = "run s (DragStart a # map (DragOver a) overs @ [DragEnd a (Some t)])"
  have r: "?s' = handleDragEnd s1 a (Some t)"
    by (simp add: assms(2) run_def)
  have same_index: "?ai = findIndex (\<lambda>task. task_id task = a) (tasks s)"
    by (simp add: assms(2) run_def handleDragStart_def findIndex_hovers)
  have found: "0 \<le> ?ai"
    using findIndex_found_bounds [OF assms(1)] by (simp add: same_index)
  then have i: "?i < length ?ts"
    using findIndex_range [of "\<lambda>task. task_id task = a" ?ts] by simp
  have ida: "task_id (?ts ! ?i) = a"
    using findIndex_nth [of "\<lambda>task. task_id task = a" ?ts] found by simp
  have cur: "findContainer ?ts a = Some (status (?ts ! ?i))"
    using found by (simp add: findContainer_index)
  have act: "activeId ?s' = None"
    by (simp add: r handleDragEnd_def split: option.splits)
  have dist: "distinct (map task_id (tasks ?s'))" if "distinct (map task_id (tasks s))"
  proof -
    have "mset (map task_id (tasks ?s')) = mset (map task_id (tasks s))"
      unfolding run_def by (rule ids_run)
    then show ?thesis
      using that mset_eq_imp_distinct_iff by blast
  qed
  show ?thesis
  proof (cases "findContainer ?ts a = Some ct")
    case False
    with cur have ne: "status (?ts ! ?i) \<noteq> ct" by simp
    have e: "handleDragEnd s1 a (Some t) =
               s1\<lparr>tasks := moveAcross ?ts a ct, activeId := None\<rparr>"
      using cur ne assms(3) by (simp add: handleDragEnd_def)
    have tsk: "tasks ?s' = moveAcross ?ts a ct"
      by (simp add: r e)
    have upd: "tasks ?s' = ?ts[?i := (?ts ! ?i)\<lparr>status := ct\<rparr>]"
      using found by (simp add: tsk moveAcross_update)
    have ids: "map task_id (tasks ?s') = map task_id ?ts"
      by (simp only: tsk map_task_id_moveAcross)
    have mem: "(?ts ! ?i)\<lparr>status := ct\<rparr> \<in> set (tasks ?s')"
      using i by (simp only: upd set_update_memI)
    have "findContainer (moveAcross ?ts a ct) a = Some ct"
      using cur by (rule findContainer_moveAcross)
    then have fc: "distinct (map task_id (tasks s)) \<longrightarrow> findContainer (tasks ?s') a = Some ct"
      by (simp add: tsk)
    show ?thesis
      unfolding Let_def if_P [OF False] by (intro conjI; fact)
  next
    case True
    with cur have st: "status (?ts ! ?i) = ct" by simp
    have e: "handleDragEnd s1 a (Some t) = s1\<lparr>tasks := reorder ?ts a t, activeId := None\<rparr>"
      using True assms(3) by (simp add: handleDragEnd_def)
    have tsk: "tasks ?s' = reorder ?ts a t"
      by (simp add: r e)
    have noop: "moveAcross ?ts a ct = ?ts"
      using True by (rule moveAcross_same)
    have res: "tasks ?s' = (if t \<in> task_id ` set ?ts then take ?j ?rest @ [?ts ! ?i] @ drop ?j ?rest
                            else ?rest @ [?ts ! ?i])"
      using reorder_result [OF found, of t] unfolding Let_def by (simp only: tsk)
    have same: "(?ts ! ?i)\<lparr>status := ct\<rparr> = ?ts ! ?i"
      using st by simp
    have "?ts ! ?i \<in> set ?ts"
      using i by simp
    then have mem0: "?ts ! ?i \<in> set (tasks ?s')"
      by (simp only: tsk set_reorder)
    then have mem: "(?ts ! ?i)\<lparr>status := ct\<rparr> \<in> set (tasks ?s')"
      by (simp only: same)
    have fc: "distinct (map task_id (tasks s)) \<longrightarrow> findContainer (tasks ?s') a = Some ct"
    proof
      assume "distinct (map task_id (tasks s))"
      then have "distinct (map task_id (tasks ?s'))"
        by (rule dist)
      then have "findContainer (tasks ?s') (task_id (?ts ! ?i)) = Some (status (?ts ! ?i))"
        using mem0 by (rule findContainer_distinct)
      then show "findContainer (tasks ?s') a = Some ct"
        by (simp only: ida st)
    qed
    have cond: "\<not> findContainer ?ts a \<noteq> Some ct"
      using True by simp
    show ?thesis
      unfolding Let_def if_not_P [OF cond] by (intro conjI; fact)
  qed
qed

theorem dragEnd_after_gesture_witness:
  "findContainer (tasks scenarioA) ''T1'' = Some Todo \<and>
   overContainer (tasks (run scenarioA [DragStart ''T1'', DragOver ''T1'' (Some ''T3'')])) ''T3''
     = Some Done \<and>
   Todo \<noteq> Done \<and>
   distinct (map task_id (tasks scenarioA)) \<and>
   findContainer (tasks (run scenarioA [DragStart ''T1'', DragOver ''T1'' (Some ''T3'')])) ''T1''
     = Some Done \<and>
   tasks (run scenarioA [DragStart ''T1'', DragOver ''T1'' (Some ''T3''), DragEnd ''T1'' (Some ''T3'')]) =
     [mk ''T2'' Todo, mk ''T3'' Done, mk ''T1'' Done] \<and>
   findContainer
     (tasks (run scenarioA [DragStart ''T1'', DragOver ''T1'' (Some ''T3''), DragEnd ''T1'' (Some ''T3'')]))
     ''T1'' = Some Done \<and>
   activeId (run scenarioA [DragStart ''T1'', DragOver ''T1'' (Some ''T3''), DragEnd ''T1'' (Some ''T3'')])
     = None \<and>
   overContainer (tasks (run scenarioA [DragStart ''T1'', DragOver ''T1'' None])) ''T3'' = Some Done \<and>
   findContainer (tasks (run scenarioA [DragStart ''T1'', DragOver ''T1'' None])) ''T1'' = Some Todo \<and>
   tasks (run scenarioA [DragStart ''T1'', DragOver ''T1'' None, DragEnd ''T1'' (Some ''T3'')]) =
     [mk ''T1'' Done, mk ''T2'' Todo, mk ''T3'' Done]"
  using dragEnd_after_gesture
      [of scenarioA "''T1''" Todo "run scenarioA [DragStart ''T1'', DragOver ''T1'' (Some ''T3'')]"
          "[Some ''T3'']" "''T3''" Done]
    dragEnd_after_gesture
      [of scenarioA "''T1''" Todo "run scenarioA [DragStart ''T1'', DragOver ''T1'' None]"
          "[None]" "''T3''" Done]
  by (simp add: scenario_defs)

subsection \<open>Moves within one column\<close>

text \<open>
  C2 as stated fails for a drop on the column itself. With T1, T2, T3 all in todo,
  \<^verbatim>\<open>DragEnd(T1, 'todo')\<close> resolves both to the column todo, but the id \<^verbatim>\<open>'todo'\<close> is the id of
  no task: \<^verbatim>\<open>findIndex\<close> returns \<open>-1\<close>, there is no index of the target to reinsert at,
  and \<^verbatim>\<open>arrayMove\<close> moves T1 to the end of the sequence.
\<close>

theorem dragEnd_on_own_column_counterexample:
  "findContainer (tasks (handleDragStart scenarioB ''T1'')) ''T1'' = Some Todo \<and>
   overContainer (tasks (handleDragStart scenarioB ''T1'')) ''todo'' = Some Todo \<and>
   findIndex (\<lambda>task. task_id task = ''todo'') (tasks scenarioB) = - 1 \<and>
   tasks (run scenarioB [DragStart ''T1'', DragEnd ''T1'' (Some ''todo'')]) =
     [mk ''T2'' Todo, mk ''T3'' Todo, mk ''T1'' Todo] \<and>
   \<not> reorderedAtTarget (tasks scenarioB) ''T1'' ''todo''
       (tasks (run scenarioB [DragStart ''T1'', DragEnd ''T1'' (Some ''todo'')]))"
  by (simp add: scenario_defs reorderedAtTarget_def)

text \<open>
  C2, amended. For every \<^verbatim>\<open>DragEnd\<close> whose active item and target resolve to the same
  column, the session is cleared and, with \<open>i\<close> the first index of the active id in the
  full sequence: when the target id is the id of a task, with \<open>j\<close> its first index in the
  full sequence, the result is the sequence with the active item removed and reinserted at
  index \<open>j\<close>, all other tasks in their order; when the target id is the id of no task
  (a drop on the column itself), the active item is removed and appended at the end.
  Scenario B is the witness: from T1, T2, T3 in todo, dropping T1 on T3 gives T2, T3, T1.
\<close>

theorem dragEnd_same_container:
  assumes "findContainer (tasks s) a = Some c"
    and "overContainer (tasks s) t = Some c"
  shows "let ts = tasks s;
             i = nat (findIndex (\<lambda>task. task_id task = a) ts);
             j = nat (findIndex (\<lambda>task. task_id task = t) ts);
             rest = take i ts @ drop (Suc i) ts;
             s' = handleDragEnd s a (Some t)
         in i < length ts \<and> task_id (ts ! i) = a \<and> activeId s' = None \<and>
            (if t \<in> task_id ` set ts
             then j < length ts \<and> task_id (ts ! j) = t \<and>
                  tasks s' = take j rest @ [ts ! i] @ drop j rest
             else tasks s' = rest @ [ts ! i])"
proof -
  let ?ts = "tasks s"
  let ?ai = "findIndex (\<lambda>task. task_id task = a) ?ts"
  let ?oi = "findIndex (\<lambda>task. task_id task = t) ?ts"
  let ?i = "nat ?ai" and ?j = "nat ?oi"
  let ?rest = "take ?i ?ts @ drop (Suc ?i) ?ts"
  have ai: "0 \<le> ?ai" and i: "?i < length ?ts"
    using findIndex_found_bounds [OF assms(1)] by simp_all
  have ida: "task_id (?ts ! ?i) = a"
    using findIndex_nth [of "\<lambda>task. task_id task = a" ?ts] ai by simp
  have s': "handleDragEnd s a (Some t) = s\<lparr>tasks := reorder ?ts a t, activeId := None\<rparr>"
    using assms by (simp add: handleDragEnd_def)
  have act: "activeId (handleDragEnd s a (Some t)) = None"
    and tsk: "tasks (handleDragEnd s a (Some t)) = reorder ?ts a t"
    by (simp_all add: s')
  have ai_int: "?ai = int ?i"
    using ai by simp
  show ?thesis
  proof (cases "t \<in> task_id ` set ?ts")
    case True
    then have "\<not> ?oi < 0"
      by (auto simp: findIndex_neg_iff)
    then have oi: "0 \<le> ?oi" by simp
    then have j: "?j < length ?ts"
      using findIndex_range [of "\<lambda>task. task_id task = t" ?ts] by simp
    have idt: "task_id (?ts ! ?j) = t"
      using findIndex_nth [of "\<lambda>task. task_id task = t" ?ts] oi by simp
    have oi_int: "?oi = int ?j"
      using oi by simp
    have mv: "arrayMove ?ts ?ai ?oi = take ?j ?rest @ [?ts ! ?i] @ drop ?j ?rest"
      using arrayMove_in_range [OF i j] by (simp only: ai_int [symmetric] oi_int [symmetric])
    have "reorder ?ts a t = take ?j ?rest @ [?ts ! ?i] @ drop ?j ?rest"
    proof (cases "?ai = ?oi")
      case False
      then show ?thesis by (simp only: reorder_def Let_def mv) simp
    next
      case same: True
      then have "?j = ?i" by simp
      moreover have "take ?i ?rest @ [?ts ! ?i] @ drop ?i ?rest = ?ts"
        using i by (rule reinsert_same)
      moreover have "reorder ?ts a t = ?ts"
        using same by (simp add: reorder_def)
      ultimately show ?thesis by (simp only:)
    qed
    with True i ida act tsk j idt show ?thesis
      unfolding Let_def by (simp only: if_True simp_thms)
  next
    case False
    then have oi: "?oi = - 1"
      using findIndex_neg_iff [of "\<lambda>task. task_id task = t" ?ts]
        findIndex_range [of "\<lambda>task. task_id task = t" ?ts] by auto
    have "arrayMove ?ts ?ai ?oi = ?rest @ [?ts ! ?i]"
      using arrayMove_to_end [OF i] by (simp only: ai_int [symmetric] oi) simp
    moreover have "?ai \<noteq> ?oi"
      using ai oi by simp
    ultimately have "reorder ?ts a t = ?rest @ [?ts ! ?i]"
      by (simp only: reorder_def Let_def) simp
    with False i ida act tsk show ?thesis
      unfolding Let_def by (simp only: if_False simp_thms)
  qed
qed

theorem dragEnd_same_container_witness:
  "findContainer (tasks (handleDragStart scenarioB ''T1'')) ''T1'' = Some Todo \<and>
   overContainer (tasks (handleDragStart scenarioB ''T1'')) ''T3'' = Some Todo \<and>
   tasks (run scenarioB [DragStart ''T1'', DragEnd ''T1'' (Some ''T3'')]) =
     [mk ''T2'' Todo, mk ''T3'' Todo, mk ''T1'' Todo] \<and>
   activeId (run scenarioB [DragStart ''T1'', DragEnd ''T1'' (Some ''T3'')]) = None"
  using dragEnd_same_container [of "handleDragStart scenarioB ''T1''" "''T1''" Todo "''T3''"]
  by (simp add: scenario_defs)

text \<open>
  C9. The reorder with the target equal to the active item returns the sequence it was
  given, and so does every reorder whose two indices are equal; a drop of an item on itself
  leaves the tasks as they are.
\<close>

theorem reorder_equal_indices:
  "reorder ts a a = ts \<and>
   (findIndex (\<lambda>task. task_id task = a) ts = findIndex (\<lambda>task. task_id task = t) ts \<longrightarrow>
      reorder ts a t = ts) \<and>
   (findContainer (tasks s) a = overContainer (tasks s) a \<longrightarrow>
      tasks (handleDragEnd s a (Some a)) = tasks s)"
  by (auto simp: reorder_def handleDragEnd_def split: option.splits)

theorem reorder_equal_indices_witness:
  "findIndex (\<lambda>task. task_id task = ''T2'') (tasks scenarioB) = 1 \<and>
   findContainer (tasks scenarioB) ''T2'' = overContainer (tasks scenarioB) ''T2'' \<and>
   reorder (tasks scenarioB) ''T2'' ''T2'' = tasks scenarioB \<and>
   tasks (handleDragEnd scenarioB ''T2'' (Some ''T2'')) = tasks scenarioB"
  using reorder_equal_indices [of "tasks scenarioB" "''T2''" "''T2''" scenarioB]
  by (simp add: scenario_defs)

subsection \<open>Container resolution and stale references\<close>

text \<open>
  C4. The column of a drop target: a target id that is one of the four column ids
  resolves to that very id; any other id resolves to the status of the (first) task with
  that id when there is one, and to nothing otherwise.
\<close>

theorem overContainer_resolution:
  "(t \<in> {''todo'', ''in-progress'', ''done'', ''failed''} \<longrightarrow>
      map_option statusId (overContainer ts t) = Some t) \<and>
   (t \<notin> {''todo'', ''in-progress'', ''done'', ''failed''} \<longrightarrow>
      ((\<exists>x\<in>set ts. task_id x = t) \<longrightarrow>
         (\<exists>task\<in>set ts. task_id task = t \<and>
            find (\<lambda>x. task_id x = t) ts = Some task \<and>
            overContainer ts t = Some (status task))) \<and>
      ((\<forall>x\<in>set ts. task_id x \<noteq> t) \<longrightarrow> overContainer ts t = None))"
proof (intro conjI impI)
  assume "t \<in> {''todo'', ''in-progress'', ''done'', ''failed''}"
  then show "map_option statusId (overContainer ts t) = Some t"
    by (auto simp: overContainer_def asStatus_def)
next
  assume no: "t \<notin> {''todo'', ''in-progress'', ''done'', ''failed''}"
    and ex: "\<exists>x\<in>set ts. task_id x = t"
  from ex obtain task where f: "find (\<lambda>x. task_id x = t) ts = Some task"
    by (cases "find (\<lambda>x. task_id x = t) ts") (auto simp: find_None_iff)
  then have "task \<in> set ts" and "task_id task = t"
    by (auto simp: find_Some_iff)
  moreover from no f have "overContainer ts t = Some (status task)"
    by (simp add: overContainer_def findContainer_def)
  ultimately show "\<exists>task\<in>set ts. task_id task = t \<and>
      find (\<lambda>x. task_id x = t) ts = Some task \<and> overContainer ts t = Some (status task)"
    using f by blast
next
  assume no: "t \<notin> {''todo'', ''in-progress'', ''done'', ''failed''}"
    and none: "\<forall>x\<in>set ts. task_id x \<noteq> t"
  from none have "find (\<lambda>x. task_id x = t) ts = None"
    by (simp add: find_None_iff)
  with no show "overContainer ts t = None"
    by (simp add: overContainer_def findContainer_def)
qed

theorem overContainer_resolution_witness:
  "overContainer (tasks scenarioA) ''done'' = Some Done \<and>
   map_option statusId (overContainer (tasks scenarioA) ''in-progress'') = Some ''in-progress'' \<and>
   overContainer (tasks scenarioA) ''T3'' = Some Done \<and>
   overContainer (tasks scenarioA) ''T2'' = Some Todo \<and>
   overContainer (tasks scenarioA) ''T9'' = None"
  using overContainer_resolution [of "''done''" "tasks scenarioA"]
    overContainer_resolution [of "''T3''" "tasks scenarioA"]
    overContainer_resolution [of "''T9''" "tasks scenarioA"]
  by (simp add: scenario_defs)

text \<open>
  C5. When the active id or the target id resolves to no column, \<^verbatim>\<open>handleDragOver\<close> returns
  the state it was given and \<^verbatim>\<open>handleDragEnd\<close> changes nothing but the session, which it
  clears: the tasks are the same list. Both handlers are total functions with no failing
  branch. Scenario D is the witness: T3 is deleted during the drag of T1, and
  \<^verbatim>\<open>DragOver(T1, T3)\<close> changes nothing.
\<close>

theorem stale_reference_noop:
  assumes "findContainer (tasks s) a = None \<or> overContainer (tasks s) t = None"
  shows "handleDragOver s a (Some t) = s \<and>
         tasks (handleDragEnd s a (Some t)) = tasks s \<and>
         handleDragEnd s a (Some t) = s\<lparr>activeId := None\<rparr>"
  using assms
  by (auto simp: handleDragOver_def handleDragEnd_def split: option.splits)

theorem stale_reference_noop_witness:
  "overContainer (tasks (handleDelete (handleDragStart scenarioA ''T1'') ''T3'')) ''T3'' = None \<and>
   handleDragOver (handleDelete (handleDragStart scenarioA ''T1'') ''T3'') ''T1'' (Some ''T3'') =
     handleDelete (handleDragStart scenarioA ''T1'') ''T3'' \<and>
   tasks (handleDragOver (handleDelete (handleDragStart scenarioA ''T1'') ''T3'') ''T1'' (Some ''T3'')) =
     [mk ''T1'' Todo, mk ''T2'' Todo] \<and>
   tasks (handleDragEnd (handleDelete (handleDragStart scenarioA ''T1'') ''T3'') ''T1'' (Some ''T3'')) =
     [mk ''T1'' Todo, mk ''T2'' Todo]"
  using stale_reference_noop [of "handleDelete (handleDragStart scenarioA ''T1'') ''T3''" "''T1''" "''T3''"]
  by (simp add: scenario_defs)

subsection \<open>Cancellation and hovering over nothing\<close>

text \<open>
  C6. A \<^verbatim>\<open>DragEnd\<close> with no target leaves the tasks exactly as they were before it and
  clears the session; \<^verbatim>\<open>DragStart(a)\<close> followed at once by \<^verbatim>\<open>DragEnd(a, null)\<close> leaves the
  tasks of the state before the gesture.
\<close>

theorem dragEnd_null_target:
  "handleDragEnd s a None = s\<lparr>activeId := None\<rparr> \<and>
   tasks (handleDragEnd s a None) = tasks s \<and>
   activeId (handleDragEnd s a None) = None \<and>
   tasks (run s [DragStart a, DragEnd a None]) = tasks s \<and>
   activeId (run s [DragStart a, DragEnd a None]) = None"
  by (simp add: handleDragEnd_def handleDragStart_def run_def)

text \<open>
  C10. A \<^verbatim>\<open>DragOver\<close> with no target returns the state it was given: the tasks and the
  active id are the same, so the gesture stays in progress.
\<close>

theorem dragOver_null_over:
  "handleDragOver s a None = s \<and>
   tasks (handleDragOver s a None) = tasks s \<and>
   activeId (handleDragOver s a None) = activeId s \<and>
   activeId (run s [DragStart a, DragOver a None]) = Some a \<and>
   tasks (run s [DragStart a, DragOver a None]) = tasks s"
  by (simp add: handleDragOver_def handleDragStart_def run_def)

subsection \<open>Conservation and idempotence\<close>

text \<open>
  C7. Every sequence of \<^verbatim>\<open>DragStart\<close>, \<^verbatim>\<open>DragOver\<close> and \<^verbatim>\<open>DragEnd\<close> events, from any
  state, leaves the multiset of tasks as it was up to their status: no task is created,
  duplicated or lost, and no field of a task other than its status is rewritten, its id
  least of all. So the multiset of ids and the number of tasks stay the same. A single
  event either rewrites statuses in place, every task at its position, or permutes the
  tasks without changing any.
\<close>

theorem items_conserved:
  "mset (map (\<lambda>t. t\<lparr>status := c\<rparr>) (tasks (run s evs))) = mset (map (\<lambda>t. t\<lparr>status := c\<rparr>) (tasks s)) \<and>
   mset (map task_id (tasks (run s evs))) = mset (map task_id (tasks s)) \<and>
   length (tasks (run s evs)) = length (tasks s) \<and>
   (map (\<lambda>t. t\<lparr>status := c\<rparr>) (tasks (step s ev)) = map (\<lambda>t. t\<lparr>status := c\<rparr>) (tasks s) \<or>
    mset (tasks (step s ev)) = mset (tasks s))"
proof -
  have m: "mset (map task_id (tasks (foldl step s evs))) = mset (map task_id (tasks s))"
    by (rule ids_run)
  then have "size (mset (map task_id (tasks (foldl step s evs)))) = size (mset (map task_id (tasks s)))"
    by (simp only:)
  then have l: "length (tasks (foldl step s evs)) = length (tasks s)"
    by simp
  from m l erase_run [of c s evs] step_rewrites_or_permutes [of c s ev] show ?thesis
    unfolding run_def by (simp only: simp_thms)
qed

text \<open>
  C8. The move to another column is idempotent: applied twice with the same column it
  gives what it gives applied once; and moving an item to the column it is in already
  returns the list unchanged.
\<close>

theorem moveAcross_idempotent:
  "moveAcross (moveAcross ts a c) a c = moveAcross ts a c \<and>
   (findContainer ts a = Some c \<longrightarrow> moveAcross ts a c = ts)"
  by (simp add: moveAcross_idem moveAcross_same)

theorem moveAcross_idempotent_witness:
  "findContainer (tasks scenarioA) ''T3'' = Some Done \<and>
   moveAcross (tasks scenarioA) ''T3'' Done = tasks scenarioA \<and>
   moveAcross (moveAcross (tasks scenarioA) ''T1'' Done) ''T1'' Done =
     [mk ''T1'' Done, mk ''T2'' Todo, mk ''T3'' Done]"
  using moveAcross_idempotent [of "tasks scenarioA" "''T3''" Done]
    moveAcross_idempotent [of "tasks scenarioA" "''T1''" Done]
  by (simp add: scenario_defs)

end
